theory Spec2Isabelle
  imports Complex_Main
begin

section \<open>The process entity\<close>

text \<open>
  The simulator of \<^verbatim>\<open>os_simulator.py\<close>. Python integers are unbounded, hence \<open>int\<close>.
  Timestamps come from \<^verbatim>\<open>time.time()\<close>; every function that reads the clock takes the
  reading as an argument, and a timestamp is a \<open>real\<close>. The difference of two finite
  floats is zero exactly when they are equal, so the truth value Python gives to a
  difference is the one the model gives; the rounding of a difference to a double is
  not modelled, and no statement below gives the value of a difference that a double
  does not hold exactly.
\<close>

datatype ProcessState = PRONTO | EXECUTANDO | BLOQUEADO | FINALIZADO

record process =
  pid :: int
  name :: string
  cpu_time :: int
  cpu_remaining :: int
  memory :: int
  priority :: int
  state :: ProcessState
  arrival_time :: real
  finish_time :: "real option"

text \<open>\<^verbatim>\<open>Process.__init__\<close>; \<open>now\<close> is the reading of the clock.\<close>

definition Process :: "int \<Rightarrow> string \<Rightarrow> int \<Rightarrow> int \<Rightarrow> int \<Rightarrow> real \<Rightarrow> process" where
  "Process p nm c m pr now =
     \<lparr>pid = p, name = nm, cpu_time = max 1 c, cpu_remaining = max 1 c, memory = m,
      priority = pr, state = PRONTO, arrival_time = now, finish_time = None\<rparr>"

text \<open>
  The two properties test their operand for truth (\<^verbatim>\<open>if self.finish_time:\<close>), and a
  float is true when it is not zero.
\<close>

definition turnaround_time :: "process \<Rightarrow> real option" where
  "turnaround_time p =
     (case finish_time p of
        None \<Rightarrow> None
      | Some f \<Rightarrow> if f \<noteq> 0 then Some (f - arrival_time p) else None)"

text \<open>The exceptions that the code of the simulator can raise.\<close>

datatype error = OverflowError | TypeError

text \<open>
  \<^verbatim>\<open>float - int\<close> first converts the integer, and the conversion raises
  \<^verbatim>\<open>OverflowError\<close> for an integer that rounds to \<open>2 ^ 1024\<close> or more: the largest double
  is \<open>2 ^ 1024 - 2 ^ 971\<close>, and the integers from \<open>2 ^ 1024 - 2 ^ 970\<close> on round beyond it.
\<close>

definition float_of_int :: "int \<Rightarrow> error + real" where
  "float_of_int i =
     (if 2 ^ 1024 - 2 ^ 970 \<le> \<bar>i\<bar> then Inl OverflowError else Inr (real_of_int i))"

text \<open>
  \<^verbatim>\<open>waiting_time\<close> subtracts the demand, an integer, from the turnaround, a float, when
  the turnaround is true.
\<close>

definition waiting_time :: "process \<Rightarrow> error + real option" where
  "waiting_time p =
     (case turnaround_time p of
        None \<Rightarrow> Inr None
      | Some t \<Rightarrow>
          if t \<noteq> 0
          then (case float_of_int (cpu_time p) of
                  Inl e \<Rightarrow> Inl e
                | Inr c \<Rightarrow> Inr (Some (t - c)))
          else Inr None)"

section \<open>The session\<close>

text \<open>
  \<open>processes\<close> is the table. The rotation queue holds references to the objects of the
  table: a reference is the position of the object in \<open>processes\<close>, which never
  shrinks, so a mutation through either structure is seen through the other.
\<close>

record OperatingSystem =
  processes :: "process list"
  next_pid :: int
  quantum :: int
  rr_queue :: "nat list"

definition init :: "int \<Rightarrow> OperatingSystem" where
  "init q = \<lparr>processes = [], next_pid = 1, quantum = q, rr_queue = []\<rparr>"

text \<open>
  What the functions print, one constructor for each message of the source; \<open>Erro\<close> is
  the message with which \<^verbatim>\<open>main\<close> reports an exception that a call has raised.
\<close>

datatype notice =
    Created int string int int int
  | Not_found int
  | Already_finalized int
  | Blocked int
  | Unblocked int
  | Not_blocked int
  | Killed int
  | Header string
  | All_finalized
  | No_ready
  | Invalid_algorithm string
  | Cycle_msg nat string int int
  | Finalized int
  | Concluded nat
  | Metrics_header
  | Metric_full int string ProcessState real real
  | Metric_short int string ProcessState
  | Erro error

text \<open>
  \<^verbatim>\<open>create_process\<close>: the message shows the demand as the caller gave it. The object
  returned is the one at position \<open>length (processes s)\<close> of the new table.
\<close>

definition create_process ::
  "string \<Rightarrow> int \<Rightarrow> int \<Rightarrow> int \<Rightarrow> real \<Rightarrow> OperatingSystem \<Rightarrow> notice list \<times> OperatingSystem" where
  "create_process nm c m pr now s =
     (let p = Process (next_pid s) nm c m pr now in
      ([Created (pid p) (name p) c m pr],
       s\<lparr>processes := processes s @ [p],
         rr_queue := rr_queue s @ [length (processes s)],
         next_pid := next_pid s + 1\<rparr>))"

text \<open>\<^verbatim>\<open>get_process_by_pid\<close>: the first object of the table with that identifier.\<close>

definition get_process_by_pid :: "process list \<Rightarrow> int \<Rightarrow> nat option" where
  "get_process_by_pid ps p = List.find (\<lambda>i. pid (ps ! i) = p) [0..<length ps]"

definition block_process :: "int \<Rightarrow> OperatingSystem \<Rightarrow> notice list \<times> OperatingSystem" where
  "block_process p s =
     (case get_process_by_pid (processes s) p of
        None \<Rightarrow> ([Not_found p], s)
      | Some i \<Rightarrow>
          if state (processes s ! i) = FINALIZADO then ([Already_finalized p], s)
          else ([Blocked p],
                s\<lparr>processes := (processes s)[i := (processes s ! i)\<lparr>state := BLOQUEADO\<rparr>]\<rparr>))"

definition unblock_process :: "int \<Rightarrow> OperatingSystem \<Rightarrow> notice list \<times> OperatingSystem" where
  "unblock_process p s =
     (case get_process_by_pid (processes s) p of
        None \<Rightarrow> ([Not_found p], s)
      | Some i \<Rightarrow>
          if state (processes s ! i) = BLOQUEADO
          then ([Unblocked p],
                s\<lparr>processes := (processes s)[i := (processes s ! i)\<lparr>state := PRONTO\<rparr>]\<rparr>)
          else ([Not_blocked p], s))"

definition kill_process :: "int \<Rightarrow> real \<Rightarrow> OperatingSystem \<Rightarrow> notice list \<times> OperatingSystem" where
  "kill_process p now s =
     (case get_process_by_pid (processes s) p of
        None \<Rightarrow> ([Not_found p], s)
      | Some i \<Rightarrow>
          ([Killed p],
           s\<lparr>processes := (processes s)[i := (processes s ! i)
                \<lparr>state := FINALIZADO, cpu_remaining := 0, finish_time := Some now\<rparr>]\<rparr>))"

section \<open>Selection\<close>

definition get_ready_processes :: "process list \<Rightarrow> nat list" where
  "get_ready_processes ps = filter (\<lambda>i. state (ps ! i) = PRONTO) [0..<length ps]"

text \<open>Python's \<^verbatim>\<open>min(xs, key=k)\<close> keeps the first element whose key is least.\<close>

fun min_key :: "('a \<Rightarrow> int) \<Rightarrow> 'a \<Rightarrow> 'a list \<Rightarrow> 'a" where
  "min_key k b [] = b"
| "min_key k b (x # xs) = min_key k (if k x < k b then x else b) xs"

definition select_next_process_fifo :: "process list \<Rightarrow> nat option" where
  "select_next_process_fifo ps =
     (case get_ready_processes ps of [] \<Rightarrow> None | i # _ \<Rightarrow> Some i)"

definition select_next_process_sjf :: "process list \<Rightarrow> nat option" where
  "select_next_process_sjf ps =
     (case get_ready_processes ps of
        [] \<Rightarrow> None
      | i # r \<Rightarrow> Some (min_key (\<lambda>j. cpu_remaining (ps ! j)) i r))"

definition select_next_process_prio :: "process list \<Rightarrow> nat option" where
  "select_next_process_prio ps =
     (case get_ready_processes ps of
        [] \<Rightarrow> None
      | i # r \<Rightarrow> Some (min_key (\<lambda>j. priority (ps ! j)) i r))"

text \<open>
  \<^verbatim>\<open>select_next_process_rr\<close> pops the head of the queue until it pops a Ready process;
  the result is the selection and what is left of the queue. Every reference of the
  source denotes an object; a position beyond the table, which no operation produces,
  counts as not Ready.
\<close>

fun select_next_process_rr :: "process list \<Rightarrow> nat list \<Rightarrow> nat option \<times> nat list" where
  "select_next_process_rr ps [] = (None, [])"
| "select_next_process_rr ps (i # q) =
     (if i < length ps \<and> state (ps ! i) = PRONTO then (Some i, q)
      else select_next_process_rr ps q)"

section \<open>The simulation\<close>

text \<open>
  \<^verbatim>\<open>str.lower\<close> and \<^verbatim>\<open>str.upper\<close> on the ASCII letters; every other byte is kept.
  Python also maps letters beyond ASCII, and none of them to the letters of the four
  policy names, so the comparison with the names is decided as in the source. For a
  name with a letter beyond ASCII the text of the header and of the message for an
  invalid algorithm is not the one the program prints; \<open>ascii\<close> says that a name has
  no such letter, and then both functions are those of Python.
\<close>

definition ascii :: "string \<Rightarrow> bool" where
  "ascii s \<longleftrightarrow> list_all (\<lambda>c. (of_char c :: nat) < 128) s"

definition lower_char :: "char \<Rightarrow> char" where
  "lower_char c =
     (let n = (of_char c :: nat) in if 65 \<le> n \<and> n \<le> 90 then char_of (n + 32) else c)"

definition upper_char :: "char \<Rightarrow> char" where
  "upper_char c =
     (let n = (of_char c :: nat) in if 97 \<le> n \<and> n \<le> 122 then char_of (n - 32) else c)"

definition lower :: "string \<Rightarrow> string" where
  "lower s = map lower_char s"

definition upper :: "string \<Rightarrow> string" where
  "upper s = map upper_char s"

text \<open>
  One pass through the body of \<^verbatim>\<open>while True\<close>: it leaves the loop by \<^verbatim>\<open>break\<close>, leaves
  the function by \<^verbatim>\<open>return\<close>, or runs one unit and goes round again.
\<close>

datatype cycle_result =
    Break "notice list" OperatingSystem
  | Return "notice list" OperatingSystem
  | Continue "notice list" OperatingSystem

text \<open>
  Lines 189 to 204: \<open>cur\<close> is the selection, \<open>now\<close> the reading of the clock should the
  process finish in this cycle.
\<close>

definition execute_unit :: "real \<Rightarrow> nat \<Rightarrow> OperatingSystem \<Rightarrow> nat option \<Rightarrow> cycle_result" where
  "execute_unit now cycle s cur =
     (case cur of
        None \<Rightarrow> Break [] s
      | Some i \<Rightarrow>
          (let p = processes s ! i;
               p1 = p\<lparr>state := EXECUTANDO, cpu_remaining := cpu_remaining p - 1\<rparr>;
               m = Cycle_msg (Suc cycle) (name p1) (pid p1) (cpu_remaining p1)
           in if cpu_remaining p1 \<le> 0
              then Continue [m, Finalized (pid p1)]
                     (s\<lparr>processes := (processes s)[i := p1\<lparr>state := FINALIZADO, finish_time := Some now\<rparr>]\<rparr>)
              else Continue [m]
                     (s\<lparr>processes := (processes s)[i := p1\<lparr>state := PRONTO\<rparr>]\<rparr>)))"

definition run_cycle :: "string \<Rightarrow> real \<Rightarrow> nat \<Rightarrow> OperatingSystem \<Rightarrow> cycle_result" where
  "run_cycle algorithm now cycle s =
     (if get_ready_processes (processes s) = [] then
        (if filter (\<lambda>p. state p \<noteq> FINALIZADO) (processes s) = []
         then Break [All_finalized] s
         else Break [No_ready] s)
      else if algorithm = ''fifo'' then
        execute_unit now cycle s (select_next_process_fifo (processes s))
      else if algorithm = ''sjf'' then
        execute_unit now cycle s (select_next_process_sjf (processes s))
      else if algorithm = ''prio'' then
        execute_unit now cycle s (select_next_process_prio (processes s))
      else if algorithm = ''rr'' then
        (case select_next_process_rr (processes s) (rr_queue s) of
           (None, q) \<Rightarrow> execute_unit now cycle (s\<lparr>rr_queue := q\<rparr>) None
         | (Some i, q) \<Rightarrow> execute_unit now cycle (s\<lparr>rr_queue := q @ [i]\<rparr>) (Some i))
      else Return [Invalid_algorithm algorithm] s)"

text \<open>
  The weight of the Ready processes, which every cycle that goes round again makes
  smaller.
\<close>

definition weight :: "process \<Rightarrow> nat" where
  "weight p = (if state p = PRONTO then nat (max 1 (cpu_remaining p)) else 0)"

definition work :: "OperatingSystem \<Rightarrow> nat" where
  "work s = sum_list (map weight (processes s))"

text \<open>
  The loop. \<open>clock n\<close> is the reading of the clock in cycle \<open>n\<close>; the result is what
  was printed, how the loop was left, the cycle counter and the session. That the loop
  always ends is proved below, from the weight.
\<close>

datatype halt = Broke | Returned

function run_loop ::
  "string \<Rightarrow> (nat \<Rightarrow> real) \<Rightarrow> nat \<Rightarrow> OperatingSystem \<Rightarrow> notice list \<times> halt \<times> nat \<times> OperatingSystem" where
  "run_loop algorithm clock cycle s =
     (case run_cycle algorithm (clock (Suc cycle)) cycle s of
        Break out s' \<Rightarrow> (out, Broke, cycle, s')
      | Return out s' \<Rightarrow> (out, Returned, cycle, s')
      | Continue out s' \<Rightarrow>
          (case run_loop algorithm clock (Suc cycle) s' of
             (out', h, c, s'') \<Rightarrow> (out @ out', h, c, s'')))"
  by pat_completeness auto

text \<open>
  One turn of the loop of \<^verbatim>\<open>show_metrics\<close>: both properties are read, which raises when
  the waiting time does, and then the row is printed, the full one when the turnaround is
  true. The full row formats the waiting time, which raises \<^verbatim>\<open>TypeError\<close> on \<^verbatim>\<open>None\<close>.
\<close>

definition metric_row :: "process \<Rightarrow> error + notice" where
  "metric_row p =
     (case waiting_time p of
        Inl e \<Rightarrow> Inl e
      | Inr w \<Rightarrow>
          (case turnaround_time p of
             None \<Rightarrow> Inr (Metric_short (pid p) (name p) (state p))
           | Some t \<Rightarrow>
               if t \<noteq> 0
               then (case w of
                       None \<Rightarrow> Inl TypeError
                     | Some w' \<Rightarrow> Inr (Metric_full (pid p) (name p) (state p) t w'))
               else Inr (Metric_short (pid p) (name p) (state p))))"

text \<open>The rows printed for the processes in turn, up to the first that raises.\<close>

fun metric_rows :: "process list \<Rightarrow> notice list \<times> error option" where
  "metric_rows [] = ([], None)"
| "metric_rows (p # ps) =
     (case metric_row p of
        Inl e \<Rightarrow> ([], Some e)
      | Inr n \<Rightarrow> (case metric_rows ps of (out, r) \<Rightarrow> (n # out, r)))"

text \<open>\<^verbatim>\<open>show_metrics\<close>: what it prints, and the exception that ends it, if any.\<close>

definition show_metrics :: "process list \<Rightarrow> notice list \<times> error option" where
  "show_metrics ps = (case metric_rows ps of (out, r) \<Rightarrow> (Metrics_header # out, r))"

text \<open>
  \<^verbatim>\<open>run_simulation\<close>: what was printed together with the exception that left the
  function, if any; the cycle counter when the function was left; and the session. After
  \<^verbatim>\<open>break\<close> the closing message is printed and \<^verbatim>\<open>show_metrics\<close> is called;
  \<^verbatim>\<open>return\<close> skips both.
\<close>

definition run_simulation ::
  "string \<Rightarrow> (nat \<Rightarrow> real) \<Rightarrow> OperatingSystem \<Rightarrow>
     (notice list \<times> error option) \<times> nat \<times> OperatingSystem" where
  "run_simulation algorithm clock s =
     (let a = lower algorithm in
      case run_loop a clock 0 s of
        (out, Broke, c, s') \<Rightarrow>
          (case show_metrics (processes s') of
             (rows, r) \<Rightarrow> ((Header (upper a) # out @ Concluded c # rows, r), c, s'))
      | (out, Returned, c, s') \<Rightarrow> ((Header (upper a) # out, None), c, s'))"

section \<open>Sessions as sequences of calls\<close>

text \<open>
  A session is a sequence of calls on one \<^verbatim>\<open>OperatingSystem\<close> object, as the command loop
  of \<^verbatim>\<open>main\<close> makes them; each call carries its arguments and the readings of the clock.
  The loop catches the exception of a call, prints it and goes on.
\<close>

datatype operation =
    Create string int int int real
  | Block_op int
  | Unblock_op int
  | Kill_op int real
  | Run_op string "nat \<Rightarrow> real"

fun dispatch :: "operation \<Rightarrow> OperatingSystem \<Rightarrow> notice list \<times> OperatingSystem" where
  "dispatch (Create nm c m pr now) s = create_process nm c m pr now s"
| "dispatch (Block_op p) s = block_process p s"
| "dispatch (Unblock_op p) s = unblock_process p s"
| "dispatch (Kill_op p now) s = kill_process p now s"
| "dispatch (Run_op a clock) s =
     (case run_simulation a clock s of
        ((out, r), c, s') \<Rightarrow> (out @ (case r of None \<Rightarrow> [] | Some e \<Rightarrow> [Erro e]), s'))"

fun session :: "operation list \<Rightarrow> OperatingSystem \<Rightarrow> notice list \<times> OperatingSystem" where
  "session [] s = ([], s)"
| "session (x # xs) s =
     (case dispatch x s of
        (out, s') \<Rightarrow> (case session xs s' of (out', s'') \<Rightarrow> (out @ out', s'')))"

fun on_session :: "(OperatingSystem \<Rightarrow> OperatingSystem) \<Rightarrow> cycle_result \<Rightarrow> cycle_result" where
  "on_session f (Break out s) = Break out (f s)"
| "on_session f (Return out s) = Return out (f s)"
| "on_session f (Continue out s) = Continue out (f s)"

section \<open>Reachable sessions\<close>

text \<open>The session a pass through the loop body leaves behind.\<close>

fun session_of :: "cycle_result \<Rightarrow> OperatingSystem" where
  "session_of (Break out s) = s"
| "session_of (Return out s) = s"
| "session_of (Continue out s) = s"

text \<open>What the unit of lines 193 to 204 does to the selected process.\<close>

definition unit_step :: "real \<Rightarrow> process \<Rightarrow> process" where
  "unit_step now p =
     (if cpu_remaining p - 1 \<le> 0
      then p\<lparr>cpu_remaining := cpu_remaining p - 1, state := FINALIZADO, finish_time := Some now\<rparr>
      else p\<lparr>cpu_remaining := cpu_remaining p - 1, state := PRONTO\<rparr>)"

text \<open>
  What every operation keeps of a process: the bounds on the demand, a remaining demand
  of at least 1 until the process is Finished, a completion time exactly when it is
  Finished, and no process left Running.
\<close>

definition proc_ok :: "process \<Rightarrow> bool" where
  "proc_ok p \<longleftrightarrow>
     1 \<le> cpu_time p \<and> 0 \<le> cpu_remaining p \<and> cpu_remaining p \<le> cpu_time p \<and>
     (state p = FINALIZADO \<or> 1 \<le> cpu_remaining p) \<and>
     (finish_time p \<noteq> None \<longleftrightarrow> state p = FINALIZADO) \<and>
     state p \<noteq> EXECUTANDO"

definition table_ok :: "OperatingSystem \<Rightarrow> bool" where
  "table_ok s \<longleftrightarrow> (\<forall>p \<in> set (processes s). proc_ok p)"

text \<open>
  The sessions that the operations produce from an empty one, with any arguments and any
  readings of the clock; a single pass through the loop body counts as a step, so the
  sessions between the cycles of a run are reachable too.
\<close>

inductive reachable :: "OperatingSystem \<Rightarrow> bool" where
  r_init: "reachable (init q)"
| r_create: "reachable s \<Longrightarrow> reachable (snd (create_process nm c m pr now s))"
| r_block: "reachable s \<Longrightarrow> reachable (snd (block_process p s))"
| r_unblock: "reachable s \<Longrightarrow> reachable (snd (unblock_process p s))"
| r_kill: "reachable s \<Longrightarrow> reachable (snd (kill_process p now s))"
| r_cycle: "reachable s \<Longrightarrow> reachable (session_of (run_cycle a now c s))"
| r_run: "reachable s \<Longrightarrow> reachable (snd (snd (run_simulation a clock s)))"

text \<open>A queue entry that the selection accepts: an object of the table in state Ready.\<close>

definition is_ready :: "process list \<Rightarrow> nat \<Rightarrow> bool" where
  "is_ready ps i \<longleftrightarrow> i < length ps \<and> state (ps ! i) = PRONTO"

section \<open>Sessions of the scenarios\<close>

text \<open>A session whose only process was killed at time 7.\<close>

definition killed_session :: OperatingSystem where
  "killed_session = snd (kill_process 1 7 (snd (create_process ''P'' 2 100 3 5 (init 2))))"

text \<open>Two processes of demand 2, the first one blocked.\<close>

definition blocked_head_session :: OperatingSystem where
  "blocked_head_session =
     snd (block_process 1
       (snd (create_process ''B'' 2 100 3 0 (snd (create_process ''A'' 2 100 3 0 (init 2))))))"

text \<open>A process created and killed at the same reading of the clock.\<close>

definition instant_session :: OperatingSystem where
  "instant_session = snd (kill_process 1 5 (snd (create_process ''P'' 2 100 3 5 (init 2))))"

text \<open>
  B runs under Round-Robin while A is blocked, so the selection drops A from the queue;
  A is then unblocked.
\<close>

definition stranded_session :: OperatingSystem where
  "stranded_session =
     snd (session
       [Create ''A'' 1 100 3 0, Create ''B'' 1 100 3 0, Block_op 1, Run_op ''rr'' real,
        Unblock_op 1]
       (init 2))"

text \<open>
  The same with a third process, of a demand too large for a float, that was killed
  before the run.
\<close>

definition stranded_big_session :: OperatingSystem where
  "stranded_big_session =
     snd (session
       [Create ''A'' 1 100 3 0, Create ''B'' 1 100 3 0, Create ''H'' (2 ^ 1024) 100 3 0,
        Kill_op 3 4, Block_op 1, Run_op ''rr'' real, Unblock_op 1]
       (init 2))"

text \<open>One process of demand 1, Ready.\<close>

definition lone_session :: OperatingSystem where
  "lone_session = snd (create_process ''P'' 1 100 3 0 (init 2))"

section \<open>Every cycle that goes round again does work\<close>

lemma sum_list_weight_update:
  assumes "i < length ps" and "weight q < weight (ps ! i)"
  shows "sum_list (map weight (ps[i := q])) < sum_list (map weight ps)"
  using assms
proof (induction ps arbitrary: i)
  case Nil
  then show ?case by simp
next
  case (Cons p ps)
  then show ?case by (cases i) auto
qed

lemma execute_unit_work:
  assumes "execute_unit now cycle s (Some i) = Continue out s'"
    and "i < length (processes s)" and "state (processes s ! i) = PRONTO"
  shows "work s' < work s"
proof (cases "cpu_remaining (processes s ! i) - 1 \<le> 0")
  case True
  then have "processes s' = (processes s)[i := (processes s ! i)
      \<lparr>state := EXECUTANDO, cpu_remaining := cpu_remaining (processes s ! i) - 1,
       state := FINALIZADO, finish_time := Some now\<rparr>]"
    using assms(1) by (auto simp: execute_unit_def Let_def)
  then show ?thesis
    using assms(2,3) by (simp add: work_def sum_list_weight_update weight_def)
next
  case False
  then have "processes s' = (processes s)[i := (processes s ! i)
      \<lparr>state := EXECUTANDO, cpu_remaining := cpu_remaining (processes s ! i) - 1,
       state := PRONTO\<rparr>]"
    using assms(1) by (auto simp: execute_unit_def Let_def)
  then show ?thesis
    using assms(2,3) False by (simp add: work_def sum_list_weight_update weight_def)
qed

lemma ready_valid:
  "i \<in> set (get_ready_processes ps) \<Longrightarrow> i < length ps \<and> state (ps ! i) = PRONTO"
  by (simp add: get_ready_processes_def)

lemma min_key_in: "min_key k b xs \<in> set (b # xs)"
  by (induction xs arbitrary: b) auto

lemma select_fifo_ready:
  "select_next_process_fifo ps = Some i \<Longrightarrow> i \<in> set (get_ready_processes ps)"
  by (auto simp: select_next_process_fifo_def split: list.splits)

lemma select_sjf_ready:
  "select_next_process_sjf ps = Some i \<Longrightarrow> i \<in> set (get_ready_processes ps)"
  using min_key_in by (fastforce simp: select_next_process_sjf_def split: list.splits)

lemma select_prio_ready:
  "select_next_process_prio ps = Some i \<Longrightarrow> i \<in> set (get_ready_processes ps)"
  using min_key_in by (fastforce simp: select_next_process_prio_def split: list.splits)

lemma select_rr_ready:
  "select_next_process_rr ps q = (Some i, q') \<Longrightarrow> i < length ps \<and> state (ps ! i) = PRONTO"
  by (induction q) (auto split: if_splits)

lemma execute_unit_None [simp]: "execute_unit now cycle s None = Break [] s"
  by (simp add: execute_unit_def)

lemma run_cycle_work:
  assumes "run_cycle algorithm now cycle s = Continue out s'"
  shows "work s' < work s"
proof -
  have rdy: "get_ready_processes (processes s) \<noteq> []"
    using assms by (auto simp: run_cycle_def split: if_splits)
  consider (fifo) "algorithm = ''fifo''" | (sjf) "algorithm = ''sjf''"
    | (prio) "algorithm = ''prio''" | (rr) "algorithm = ''rr''"
    using assms rdy by (auto simp: run_cycle_def split: if_splits)
  then show ?thesis
  proof cases
    case fifo
    then obtain i where "select_next_process_fifo (processes s) = Some i"
      and "execute_unit now cycle s (Some i) = Continue out s'"
      using assms rdy by (cases "select_next_process_fifo (processes s)") (auto simp: run_cycle_def)
    then show ?thesis
      using execute_unit_work select_fifo_ready ready_valid by blast
  next
    case sjf
    then obtain i where "select_next_process_sjf (processes s) = Some i"
      and "execute_unit now cycle s (Some i) = Continue out s'"
      using assms rdy by (cases "select_next_process_sjf (processes s)") (auto simp: run_cycle_def)
    then show ?thesis
      using execute_unit_work select_sjf_ready ready_valid by blast
  next
    case prio
    then obtain i where "select_next_process_prio (processes s) = Some i"
      and "execute_unit now cycle s (Some i) = Continue out s'"
      using assms rdy by (cases "select_next_process_prio (processes s)") (auto simp: run_cycle_def)
    then show ?thesis
      using execute_unit_work select_prio_ready ready_valid by blast
  next
    case rr
    obtain c q where sel: "select_next_process_rr (processes s) (rr_queue s) = (c, q)"
      by (cases "select_next_process_rr (processes s) (rr_queue s)")
    with assms rdy rr obtain i where c: "c = Some i"
      and ex: "execute_unit now cycle (s\<lparr>rr_queue := q @ [i]\<rparr>) (Some i) = Continue out s'"
      by (cases c) (auto simp: run_cycle_def)
    from sel c have "i < length (processes s) \<and> state (processes s ! i) = PRONTO"
      using select_rr_ready by blast
    then have "work s' < work (s\<lparr>rr_queue := q @ [i]\<rparr>)"
      using execute_unit_work [OF ex] by simp
    then show ?thesis by (simp add: work_def)
  qed
qed

termination run_loop
  by (relation "measure (\<lambda>(algorithm, clock, cycle, s). work s)") (auto simp: run_cycle_work)

declare run_loop.simps [simp del]

section \<open>Evaluating a session\<close>

text \<open>
  The metrics raise nothing but \<^verbatim>\<open>OverflowError\<close>, and not even that when every demand
  can be converted to a float.
\<close>

lemma float_of_int_small:
  "\<bar>i\<bar> < 2 ^ 1024 - 2 ^ 970 \<Longrightarrow> float_of_int i = Inr (real_of_int i)"
  by (simp add: float_of_int_def)

lemma metric_row_no_TypeError: "metric_row p \<noteq> Inl TypeError"
  by (auto simp: metric_row_def waiting_time_def float_of_int_def
      split: option.splits sum.splits if_splits)

lemma metric_row_small:
  assumes "\<bar>cpu_time p\<bar> < 2 ^ 1024 - 2 ^ 970"
  shows "\<exists>n. metric_row p = Inr n"
  using float_of_int_small [OF assms]
  by (auto simp: metric_row_def waiting_time_def split: option.splits)

lemma metric_rows_small:
  "list_all (\<lambda>p. \<bar>cpu_time p\<bar> < 2 ^ 1024 - 2 ^ 970) ps \<Longrightarrow> snd (metric_rows ps) = None"
proof (induction ps)
  case Nil
  show ?case by simp
next
  case (Cons p ps)
  then obtain n where "metric_row p = Inr n"
    using metric_row_small [of p] by auto
  with Cons show ?case
    by (cases "metric_rows ps") simp
qed

lemma show_metrics_small:
  "list_all (\<lambda>p. \<bar>cpu_time p\<bar> < 2 ^ 1024 - 2 ^ 970) ps \<Longrightarrow> snd (show_metrics ps) = None"
  using metric_rows_small [of ps] by (cases "metric_rows ps") (simp add: show_metrics_def)

text \<open>A finished process whose demand is too large for a float ends the metrics.\<close>

lemma show_metrics_overflow:
  "show_metrics
     [\<lparr>pid = 1, name = ''H'', cpu_time = 2 ^ 1024, cpu_remaining = 0, memory = 100,
       priority = 3, state = FINALIZADO, arrival_time = 0, finish_time = Some 2\<rparr>] =
   ([Metrics_header], Some OverflowError)"
  by (simp add: show_metrics_def metric_row_def waiting_time_def turnaround_time_def
      float_of_int_def)

text \<open>The two ways out of \<^verbatim>\<open>run_simulation\<close>.\<close>

lemma run_simulation_Broke:
  assumes "run_loop (lower a) clock 0 s = (out, Broke, c, s')"
  shows "run_simulation a clock s =
     ((Header (upper (lower a)) # out @ Concluded c # fst (show_metrics (processes s')),
       snd (show_metrics (processes s'))), c, s')"
  using assms by (simp add: run_simulation_def Let_def split: prod.splits)

lemma run_simulation_Returned:
  assumes "run_loop (lower a) clock 0 s = (out, Returned, c, s')"
  shows "run_simulation a clock s = ((Header (upper (lower a)) # out, None), c, s')"
  using assms by (simp add: run_simulation_def Let_def)

lemma upper_rr: "upper ''rr'' = ''RR''"
  by code_simp

lemma lower_rr: "lower ''rr'' = ''rr''"
  by code_simp

lemmas eval_defs = run_simulation_def run_loop.simps run_cycle_def execute_unit_def
  create_process_def Process_def init_def get_ready_processes_def
  select_next_process_fifo_def select_next_process_sjf_def select_next_process_prio_def
  block_process_def unblock_process_def kill_process_def get_process_by_pid_def
  Let_def upt_rec [of 0] nth_Cons'

lemmas metric_defs = show_metrics_def metric_row_def turnaround_time_def waiting_time_def
  float_of_int_def

section \<open>The Round-Robin scenario\<close>

text \<open>
  C8. From an empty session, after creating P1 and P2 with demand 2 each,
  \<^verbatim>\<open>run_simulation("rr")\<close> prints cycle 1 on P1 (remaining 1), cycle 2 on P2 (remaining 1),
  cycle 3 on P1 (remaining 0, finished), cycle 4 on P2 (remaining 0, finished), then the
  notice that all processes are finished; it counts 4 cycles and leaves both processes
  Finished. Names, memory, priorities, the quantum and the clock are arbitrary.
\<close>

theorem rr_scenario_trace:
  "run_simulation ''rr'' clock
     (snd (create_process n2 2 m2 p2 t2 (snd (create_process n1 2 m1 p1 t1 (init q))))) =
   ((Header ''RR'' #
     [Cycle_msg 1 n1 1 1, Cycle_msg 2 n2 2 1, Cycle_msg 3 n1 1 0, Finalized 1,
      Cycle_msg 4 n2 2 0, Finalized 2, All_finalized, Concluded 4] @
     fst (show_metrics
       [\<lparr>pid = 1, name = n1, cpu_time = 2, cpu_remaining = 0, memory = m1, priority = p1,
         state = FINALIZADO, arrival_time = t1, finish_time = Some (clock 3)\<rparr>,
        \<lparr>pid = 2, name = n2, cpu_time = 2, cpu_remaining = 0, memory = m2, priority = p2,
         state = FINALIZADO, arrival_time = t2, finish_time = Some (clock 4)\<rparr>]),
     None),
    4,
    \<lparr>processes =
      [\<lparr>pid = 1, name = n1, cpu_time = 2, cpu_remaining = 0, memory = m1, priority = p1,
        state = FINALIZADO, arrival_time = t1, finish_time = Some (clock 3)\<rparr>,
       \<lparr>pid = 2, name = n2, cpu_time = 2, cpu_remaining = 0, memory = m2, priority = p2,
        state = FINALIZADO, arrival_time = t2, finish_time = Some (clock 4)\<rparr>],
     next_pid = 3, quantum = q, rr_queue = [0, 1]\<rparr>)"
proof -
  have loop: "run_loop (lower ''rr'') clock 0
     (snd (create_process n2 2 m2 p2 t2 (snd (create_process n1 2 m1 p1 t1 (init q))))) =
    ([Cycle_msg 1 n1 1 1, Cycle_msg 2 n2 2 1, Cycle_msg 3 n1 1 0, Finalized 1,
      Cycle_msg 4 n2 2 0, Finalized 2, All_finalized], Broke, 4,
     \<lparr>processes =
       [\<lparr>pid = 1, name = n1, cpu_time = 2, cpu_remaining = 0, memory = m1, priority = p1,
         state = FINALIZADO, arrival_time = t1, finish_time = Some (clock 3)\<rparr>,
        \<lparr>pid = 2, name = n2, cpu_time = 2, cpu_remaining = 0, memory = m2, priority = p2,
         state = FINALIZADO, arrival_time = t2, finish_time = Some (clock 4)\<rparr>],
      next_pid = 3, quantum = q, rr_queue = [0, 1]\<rparr>)"
    by (simp add: eval_defs lower_rr eval_nat_numeral)
  have quiet: "snd (show_metrics
       [\<lparr>pid = 1, name = n1, cpu_time = 2, cpu_remaining = 0, memory = m1, priority = p1,
         state = FINALIZADO, arrival_time = t1, finish_time = Some (clock 3)\<rparr>,
        \<lparr>pid = 2, name = n2, cpu_time = 2, cpu_remaining = 0, memory = m2, priority = p2,
         state = FINALIZADO, arrival_time = t2, finish_time = Some (clock 4)\<rparr>]) = None"
    by (rule show_metrics_small) simp
  show ?thesis
    using run_simulation_Broke [OF loop] quiet by (simp add: upper_rr lower_rr)
qed

section \<open>The policy name\<close>

lemma lower_char_idem: "lower_char (lower_char c) = lower_char c"
  by (simp add: lower_char_def Let_def)

lemma lower_idem: "lower (lower s) = lower s"
  by (simp add: lower_def lower_char_idem)

lemma lower_FIFO: "lower ''FIFO'' = ''fifo''"
  by code_simp

lemma upper_fifo: "upper ''fifo'' = ''FIFO''"
  by code_simp

text \<open>
  C9. \<^verbatim>\<open>run_simulation\<close> takes the policy name without regard to case: for every
  string, every clock and every session it does what it does on the lowercase form of the
  string. So \<^verbatim>\<open>FIFO\<close> selects the FIFO policy: on a session with one process of demand 1
  it runs the process in one cycle, rejects nothing and raises nothing.
\<close>

theorem run_case_insensitive:
  "run_simulation algorithm clock s = run_simulation (lower algorithm) clock s \<and>
   run_simulation ''FIFO'' clock (snd (create_process nm 1 m pr t (init q))) =
     ((Header ''FIFO'' # [Cycle_msg 1 nm 1 0, Finalized 1, All_finalized, Concluded 1] @
       fst (show_metrics
         [\<lparr>pid = 1, name = nm, cpu_time = 1, cpu_remaining = 0, memory = m, priority = pr,
           state = FINALIZADO, arrival_time = t, finish_time = Some (clock 1)\<rparr>]),
       None),
      1,
      \<lparr>processes =
        [\<lparr>pid = 1, name = nm, cpu_time = 1, cpu_remaining = 0, memory = m, priority = pr,
          state = FINALIZADO, arrival_time = t, finish_time = Some (clock 1)\<rparr>],
       next_pid = 2, quantum = q, rr_queue = [0]\<rparr>)"
proof
  show "run_simulation algorithm clock s = run_simulation (lower algorithm) clock s"
    by (simp add: run_simulation_def lower_idem)
next
  have loop: "run_loop (lower ''FIFO'') clock 0 (snd (create_process nm 1 m pr t (init q))) =
    ([Cycle_msg 1 nm 1 0, Finalized 1, All_finalized], Broke, 1,
     \<lparr>processes =
        [\<lparr>pid = 1, name = nm, cpu_time = 1, cpu_remaining = 0, memory = m, priority = pr,
          state = FINALIZADO, arrival_time = t, finish_time = Some (clock 1)\<rparr>],
       next_pid = 2, quantum = q, rr_queue = [0]\<rparr>)"
    by (simp add: eval_defs lower_FIFO)
  have quiet: "snd (show_metrics
         [\<lparr>pid = 1, name = nm, cpu_time = 1, cpu_remaining = 0, memory = m, priority = pr,
           state = FINALIZADO, arrival_time = t, finish_time = Some (clock 1)\<rparr>]) = None"
    by (rule show_metrics_small) simp
  show "run_simulation ''FIFO'' clock (snd (create_process nm 1 m pr t (init q))) =
     ((Header ''FIFO'' # [Cycle_msg 1 nm 1 0, Finalized 1, All_finalized, Concluded 1] @
       fst (show_metrics
         [\<lparr>pid = 1, name = nm, cpu_time = 1, cpu_remaining = 0, memory = m, priority = pr,
           state = FINALIZADO, arrival_time = t, finish_time = Some (clock 1)\<rparr>]),
       None),
      1,
      \<lparr>processes =
        [\<lparr>pid = 1, name = nm, cpu_time = 1, cpu_remaining = 0, memory = m, priority = pr,
          state = FINALIZADO, arrival_time = t, finish_time = Some (clock 1)\<rparr>],
       next_pid = 2, quantum = q, rr_queue = [0]\<rparr>)"
    using run_simulation_Broke [OF loop] quiet by (simp add: upper_fifo lower_FIFO)
qed

section \<open>The quantum\<close>

lemma execute_unit_quantum:
  "execute_unit now c (s\<lparr>quantum := q\<rparr>) cur =
   on_session (\<lambda>s. s\<lparr>quantum := q\<rparr>) (execute_unit now c s cur)"
  by (simp add: execute_unit_def Let_def split: option.splits)

lemma run_cycle_quantum:
  "run_cycle a now c (s\<lparr>quantum := q\<rparr>) =
   on_session (\<lambda>s. s\<lparr>quantum := q\<rparr>) (run_cycle a now c s)"
proof -
  have rr: "execute_unit now c (s\<lparr>quantum := q, rr_queue := r\<rparr>) cur =
      on_session (\<lambda>s. s\<lparr>quantum := q\<rparr>) (execute_unit now c (s\<lparr>rr_queue := r\<rparr>) cur)" for r cur
    by (simp add: execute_unit_def Let_def split: option.splits)
  show ?thesis
    by (simp add: run_cycle_def execute_unit_quantum rr split: prod.splits option.splits)
qed

lemma run_loop_quantum:
  "run_loop a clock c (s\<lparr>quantum := q\<rparr>) =
   (case run_loop a clock c s of (out, h, n, s') \<Rightarrow> (out, h, n, s'\<lparr>quantum := q\<rparr>))"
proof (induction a clock c s rule: run_loop.induct)
  case (1 a clock c s)
  show ?case
  proof (cases "run_cycle a (clock (Suc c)) c s")
    case (Break out s')
    then show ?thesis
      by (simp add: run_loop.simps [of a clock c] run_cycle_quantum)
  next
    case (Return out s')
    then show ?thesis
      by (simp add: run_loop.simps [of a clock c] run_cycle_quantum)
  next
    case (Continue out s')
    then show ?thesis
      using "1.IH" [OF Continue]
      by (simp add: run_loop.simps [of a clock c] run_cycle_quantum split: prod.splits)
  qed
qed

lemma run_simulation_quantum:
  "run_simulation a clock (s\<lparr>quantum := q\<rparr>) =
   (case run_simulation a clock s of (out, n, s') \<Rightarrow> (out, n, s'\<lparr>quantum := q\<rparr>))"
  by (simp add: run_simulation_def run_loop_quantum Let_def split: prod.splits halt.splits)

lemma dispatch_quantum:
  "dispatch x (s\<lparr>quantum := q\<rparr>) =
   (case dispatch x s of (out, s') \<Rightarrow> (out, s'\<lparr>quantum := q\<rparr>))"
proof (cases x)
  case (Run_op a clock)
  then show ?thesis
    by (simp add: run_simulation_quantum split: prod.splits)
qed (simp_all add: create_process_def Let_def Process_def block_process_def unblock_process_def
      kill_process_def split: option.splits)

lemma session_quantum:
  "session xs (s\<lparr>quantum := q\<rparr>) =
   (case session xs s of (out, s') \<Rightarrow> (out, s'\<lparr>quantum := q\<rparr>))"
proof (induction xs arbitrary: s)
  case Nil
  show ?case by simp
next
  case (Cons x xs)
  show ?case
    by (simp add: dispatch_quantum Cons.IH split: prod.splits)
qed

text \<open>
  C10. The quantum has no effect: two sessions that start with the quanta \<open>q1\<close> and
  \<open>q2\<close> and receive the same sequence of create, block, unblock, kill and run calls
  print the same messages (traces, halt notices, cycle counts and metrics) and end with
  the same table, rotation queue and next identifier; the stored quantum is only carried
  along.
\<close>

theorem quantum_never_read:
  "fst (session xs (init q1)) = fst (session xs (init q2)) \<and>
   processes (snd (session xs (init q1))) = processes (snd (session xs (init q2))) \<and>
   rr_queue (snd (session xs (init q1))) = rr_queue (snd (session xs (init q2))) \<and>
   next_pid (snd (session xs (init q1))) = next_pid (snd (session xs (init q2))) \<and>
   quantum (snd (session xs (init q1))) = q1"
proof -
  have i: "init q1 = (init q2)\<lparr>quantum := q1\<rparr>"
    by (simp add: init_def)
  show ?thesis
    unfolding i session_quantum by (simp split: prod.splits)
qed

section \<open>What reachable sessions keep\<close>

lemma execute_unit_Some:
  "\<exists>out. execute_unit now c s (Some i) =
     Continue out (s\<lparr>processes := (processes s)[i := unit_step now (processes s ! i)]\<rparr>)"
  by (simp add: execute_unit_def unit_step_def Let_def)

lemma run_cycle_cases:
  "(\<exists>q. session_of (run_cycle a now c s) = s\<lparr>rr_queue := q\<rparr>) \<or>
   (\<exists>i q. i < length (processes s) \<and> state (processes s ! i) = PRONTO \<and>
      session_of (run_cycle a now c s) =
        s\<lparr>rr_queue := q, processes := (processes s)[i := unit_step now (processes s ! i)]\<rparr>)"
proof -
  have same: "\<exists>q. s = s\<lparr>rr_queue := q\<rparr>"
    by (rule exI [of _ "rr_queue s"]) simp
  have unit: "\<exists>j q. j < length (processes s) \<and> state (processes s ! j) = PRONTO \<and>
      session_of (execute_unit now c (s\<lparr>rr_queue := r\<rparr>) (Some i)) =
        s\<lparr>rr_queue := q, processes := (processes s)[j := unit_step now (processes s ! j)]\<rparr>"
    if "i < length (processes s)" "state (processes s ! i) = PRONTO" for i r
  proof -
    obtain out where "execute_unit now c (s\<lparr>rr_queue := r\<rparr>) (Some i) =
      Continue out (s\<lparr>rr_queue := r, processes := (processes s)[i := unit_step now (processes s ! i)]\<rparr>)"
      using execute_unit_Some [of now c "s\<lparr>rr_queue := r\<rparr>" i] by auto
    with that show ?thesis by auto
  qed
  have pick: "(\<exists>q. session_of (execute_unit now c s cur) = s\<lparr>rr_queue := q\<rparr>) \<or>
      (\<exists>j q. j < length (processes s) \<and> state (processes s ! j) = PRONTO \<and>
      session_of (execute_unit now c s cur) =
        s\<lparr>rr_queue := q, processes := (processes s)[j := unit_step now (processes s ! j)]\<rparr>)"
    if "\<And>i. cur = Some i \<Longrightarrow> i \<in> set (get_ready_processes (processes s))" for cur
  proof (cases cur)
    case None
    then show ?thesis using same by simp
  next
    case (Some i)
    then have "i < length (processes s)" "state (processes s ! i) = PRONTO"
      using that ready_valid by blast+
    from unit [OF this, of "rr_queue s"] Some show ?thesis by simp
  qed
  show ?thesis
  proof (cases "get_ready_processes (processes s) = []")
    case True
    then show ?thesis using same by (simp add: run_cycle_def)
  next
    case rdy: False
    consider (fifo) "a = ''fifo''" | (sjf) "a = ''sjf''" | (prio) "a = ''prio''" | (rr) "a = ''rr''"
      | (other) "a \<noteq> ''fifo''" "a \<noteq> ''sjf''" "a \<noteq> ''prio''" "a \<noteq> ''rr''"
      by blast
    then show ?thesis
    proof cases
      case fifo
      then show ?thesis
        using rdy pick [of "select_next_process_fifo (processes s)"] select_fifo_ready
        by (simp add: run_cycle_def)
    next
      case sjf
      then show ?thesis
        using rdy pick [of "select_next_process_sjf (processes s)"] select_sjf_ready
        by (simp add: run_cycle_def)
    next
      case prio
      then show ?thesis
        using rdy pick [of "select_next_process_prio (processes s)"] select_prio_ready
        by (simp add: run_cycle_def)
    next
      case rr
      obtain cur q where sel: "select_next_process_rr (processes s) (rr_queue s) = (cur, q)"
        by (cases "select_next_process_rr (processes s) (rr_queue s)")
      show ?thesis
      proof (cases cur)
        case None
        with rr rdy sel have "session_of (run_cycle a now c s) = s\<lparr>rr_queue := q\<rparr>"
          by (simp add: run_cycle_def)
        then show ?thesis by blast
      next
        case (Some i)
        with sel have "i < length (processes s)" "state (processes s ! i) = PRONTO"
          using select_rr_ready by blast+
        from unit [OF this, of "q @ [i]"] rr rdy sel Some show ?thesis
          by (simp add: run_cycle_def)
      qed
    next
      case other
      then show ?thesis using rdy same by (simp add: run_cycle_def)
    qed
  qed
qed

lemma run_loop_preserves:
  assumes step: "\<And>a now c s. P s \<Longrightarrow> P (session_of (run_cycle a now c s))"
    and "P s"
  shows "P (snd (snd (snd (run_loop a clock c s))))"
  using \<open>P s\<close>
proof (induction a clock c s rule: run_loop.induct)
  case (1 a clock c s)
  have P': "P (session_of (run_cycle a (clock (Suc c)) c s))"
    using step "1.prems" by blast
  show ?case
  proof (cases "run_cycle a (clock (Suc c)) c s")
    case (Break out s')
    with P' show ?thesis by (simp add: run_loop.simps [of a clock c])
  next
    case (Return out s')
    with P' show ?thesis by (simp add: run_loop.simps [of a clock c])
  next
    case (Continue out s')
    with P' have "P s'" by simp
    from "1.IH" [OF Continue this] Continue show ?thesis
      by (cases "run_loop a clock (Suc c) s'") (simp add: run_loop.simps [of a clock c])
  qed
qed

lemma run_simulation_session:
  "snd (snd (run_simulation a clock s)) = snd (snd (snd (run_loop (lower a) clock 0 s)))"
  by (simp add: run_simulation_def Let_def split: prod.splits halt.splits)

lemma run_simulation_preserves:
  assumes "\<And>a now c s. P s \<Longrightarrow> P (session_of (run_cycle a now c s))" and "P s"
  shows "P (snd (snd (run_simulation a clock s)))"
  unfolding run_simulation_session using assms by (rule run_loop_preserves)

lemma get_process_by_pid_valid:
  "get_process_by_pid ps p = Some i \<Longrightarrow> i < length ps"
  by (auto simp: get_process_by_pid_def find_Some_iff)

lemma table_ok_update:
  assumes "table_ok s" and "proc_ok q"
  shows "table_ok (s\<lparr>processes := (processes s)[i := q]\<rparr>)"
  using assms set_update_subset_insert [of "processes s" i q]
  by (auto simp: table_ok_def)

lemma table_ok_nth: "table_ok s \<Longrightarrow> i < length (processes s) \<Longrightarrow> proc_ok (processes s ! i)"
  by (simp add: table_ok_def)

lemma proc_ok_unit_step: "proc_ok p \<Longrightarrow> state p = PRONTO \<Longrightarrow> proc_ok (unit_step now p)"
  by (auto simp: proc_ok_def unit_step_def)

lemma table_ok_init: "table_ok (init q)"
  by (simp add: table_ok_def init_def)

lemma table_ok_create: "table_ok s \<Longrightarrow> table_ok (snd (create_process nm c m pr now s))"
  by (auto simp: table_ok_def create_process_def Let_def Process_def proc_ok_def)

lemma table_ok_block: "table_ok s \<Longrightarrow> table_ok (snd (block_process p s))"
proof (cases "get_process_by_pid (processes s) p")
  case None
  then show "table_ok s \<Longrightarrow> ?thesis" by (simp add: block_process_def)
next
  case (Some i)
  assume ok: "table_ok s"
  with Some have "proc_ok (processes s ! i)"
    using get_process_by_pid_valid table_ok_nth by blast
  then have "state (processes s ! i) \<noteq> FINALIZADO \<Longrightarrow>
      proc_ok ((processes s ! i)\<lparr>state := BLOQUEADO\<rparr>)"
    by (auto simp: proc_ok_def)
  with ok Some show ?thesis
    by (simp add: block_process_def table_ok_update)
qed

lemma table_ok_unblock: "table_ok s \<Longrightarrow> table_ok (snd (unblock_process p s))"
proof (cases "get_process_by_pid (processes s) p")
  case None
  then show "table_ok s \<Longrightarrow> ?thesis" by (simp add: unblock_process_def)
next
  case (Some i)
  assume ok: "table_ok s"
  with Some have "proc_ok (processes s ! i)"
    using get_process_by_pid_valid table_ok_nth by blast
  then have "state (processes s ! i) = BLOQUEADO \<Longrightarrow>
      proc_ok ((processes s ! i)\<lparr>state := PRONTO\<rparr>)"
    by (auto simp: proc_ok_def)
  with ok Some show ?thesis
    by (simp add: unblock_process_def table_ok_update)
qed

lemma table_ok_kill: "table_ok s \<Longrightarrow> table_ok (snd (kill_process p now s))"
proof (cases "get_process_by_pid (processes s) p")
  case None
  then show "table_ok s \<Longrightarrow> ?thesis" by (simp add: kill_process_def)
next
  case (Some i)
  assume ok: "table_ok s"
  with Some have "proc_ok (processes s ! i)"
    using get_process_by_pid_valid table_ok_nth by blast
  then have "proc_ok ((processes s ! i)
      \<lparr>state := FINALIZADO, cpu_remaining := 0, finish_time := Some now\<rparr>)"
    by (auto simp: proc_ok_def)
  with ok Some show ?thesis
    by (simp add: kill_process_def table_ok_update)
qed

lemma table_ok_cycle: "table_ok s \<Longrightarrow> table_ok (session_of (run_cycle a now c s))"
proof -
  assume ok: "table_ok s"
  have q: "table_ok (s\<lparr>rr_queue := q\<rparr>)" for q
    using ok by (simp add: table_ok_def)
  from run_cycle_cases [of a now c s] show ?thesis
  proof (elim disjE exE conjE)
    fix q assume "session_of (run_cycle a now c s) = s\<lparr>rr_queue := q\<rparr>"
    with q show ?thesis by simp
  next
    fix i q
    assume i: "i < length (processes s)" "state (processes s ! i) = PRONTO"
      and eq: "session_of (run_cycle a now c s) =
        s\<lparr>rr_queue := q, processes := (processes s)[i := unit_step now (processes s ! i)]\<rparr>"
    from ok i have "proc_ok (unit_step now (processes s ! i))"
      using table_ok_nth proc_ok_unit_step by blast
    from table_ok_update [OF q [of q] this, of i] eq show ?thesis by simp
  qed
qed

lemma reachable_table_ok: "reachable s \<Longrightarrow> table_ok s"
proof (induction rule: reachable.induct)
  case (r_run s a clock)
  then show ?case using table_ok_cycle run_simulation_preserves [of table_ok] by blast
qed (simp_all add: table_ok_init table_ok_create table_ok_block table_ok_unblock table_ok_kill
      table_ok_cycle)

section \<open>Bounds on the demand\<close>

text \<open>
  C5. In every reachable session, that is after every create, block, unblock and kill,
  after every cycle of a run and after every run, each process of the table has
  \<open>0 \<le> cpu_remaining \<le> cpu_time\<close> and \<open>cpu_time \<ge> 1\<close>; and the constructor raises a demand
  below 1 to 1.
\<close>

theorem demand_bounds:
  assumes "reachable s" and "p \<in> set (processes s)"
  shows "0 \<le> cpu_remaining p \<and> cpu_remaining p \<le> cpu_time p \<and> 1 \<le> cpu_time p \<and>
         (c < 1 \<longrightarrow> cpu_time (Process i nm c m pr now) = 1 \<and>
                     cpu_remaining (Process i nm c m pr now) = 1)"
proof -
  from assms have "proc_ok p"
    using reachable_table_ok by (auto simp: table_ok_def)
  then show ?thesis
    by (simp add: proc_ok_def Process_def)
qed

theorem demand_bounds_witness:
  "reachable (snd (create_process ''P'' 0 100 3 0 (init 2))) \<and>
   Process 1 ''P'' 0 100 3 0 \<in> set (processes (snd (create_process ''P'' 0 100 3 0 (init 2)))) \<and>
   (0::int) < 1 \<and>
   0 \<le> cpu_remaining (Process 1 ''P'' 0 100 3 0) \<and>
   cpu_remaining (Process 1 ''P'' 0 100 3 0) \<le> cpu_time (Process 1 ''P'' 0 100 3 0) \<and>
   1 \<le> cpu_time (Process 1 ''P'' 0 100 3 0) \<and>
   cpu_time (Process 1 ''P'' 0 100 3 0) = 1"
proof -
  have r: "reachable (snd (create_process ''P'' 0 100 3 0 (init 2)))"
    by (intro reachable.intros)
  have m: "Process 1 ''P'' 0 100 3 0 \<in> set (processes (snd (create_process ''P'' 0 100 3 0 (init 2))))"
    by (simp add: create_process_def init_def Let_def)
  from demand_bounds [OF r m, of 0 1 "''P''" 100 3 0] r m show ?thesis
    by simp
qed

section \<open>Finished is terminal\<close>

lemma finished_block:
  assumes "state (processes s ! i) = FINALIZADO"
  shows "state (processes (snd (block_process p s)) ! i) = FINALIZADO"
proof (cases "get_process_by_pid (processes s) p")
  case None
  with assms show ?thesis by (simp add: block_process_def)
next
  case (Some j)
  then have "j < length (processes s)" by (rule get_process_by_pid_valid)
  with assms Some show ?thesis
    by (cases "j = i") (auto simp: block_process_def)
qed

lemma finished_unblock:
  assumes "state (processes s ! i) = FINALIZADO"
  shows "state (processes (snd (unblock_process p s)) ! i) = FINALIZADO"
proof (cases "get_process_by_pid (processes s) p")
  case None
  with assms show ?thesis by (simp add: unblock_process_def)
next
  case (Some j)
  then have "j < length (processes s)" by (rule get_process_by_pid_valid)
  with assms Some show ?thesis
    by (cases "j = i") (auto simp: unblock_process_def)
qed

lemma finished_cycle:
  assumes "state (processes s ! i) = FINALIZADO"
  shows "state (processes (session_of (run_cycle a now c s)) ! i) = FINALIZADO"
  using run_cycle_cases [of a now c s] assms
  by (elim disjE exE conjE) (auto simp: nth_list_update)

lemma finished_run:
  assumes "state (processes s ! i) = FINALIZADO"
  shows "state (processes (snd (snd (run_simulation a clock s))) ! i) = FINALIZADO"
  using run_simulation_preserves [of "\<lambda>s. state (processes s ! i) = FINALIZADO"]
    finished_cycle assms by blast

text \<open>
  C6. In every reachable session a process has a completion time exactly when its state is
  Finished; and the state of a Finished process is still Finished after any
  \<^verbatim>\<open>block_process\<close>, any \<^verbatim>\<open>unblock_process\<close>, any cycle of a run and any whole
  \<^verbatim>\<open>run_simulation\<close>.
\<close>

theorem finished_is_terminal:
  assumes "reachable s" and "i < length (processes s)"
  shows "(finish_time (processes s ! i) \<noteq> None \<longleftrightarrow> state (processes s ! i) = FINALIZADO) \<and>
         (state (processes s ! i) = FINALIZADO \<longrightarrow>
            state (processes (snd (block_process p s)) ! i) = FINALIZADO \<and>
            state (processes (snd (unblock_process p s)) ! i) = FINALIZADO \<and>
            state (processes (session_of (run_cycle a now c s)) ! i) = FINALIZADO \<and>
            state (processes (snd (snd (run_simulation a clock s))) ! i) = FINALIZADO)"
proof -
  from assms have "proc_ok (processes s ! i)"
    using reachable_table_ok table_ok_nth by blast
  then show ?thesis
    using finished_block finished_unblock finished_cycle finished_run
    by (simp add: proc_ok_def)
qed

lemma killed_session_eq:
  "killed_session =
     \<lparr>processes =
        [\<lparr>pid = 1, name = ''P'', cpu_time = 2, cpu_remaining = 0, memory = 100, priority = 3,
          state = FINALIZADO, arrival_time = 5, finish_time = Some 7\<rparr>],
      next_pid = 2, quantum = 2, rr_queue = [0]\<rparr>"
  by (simp add: killed_session_def eval_defs)

theorem finished_is_terminal_witness:
  "reachable killed_session \<and> 0 < length (processes killed_session) \<and>
   finish_time (processes killed_session ! 0) \<noteq> None \<and>
   state (processes killed_session ! 0) = FINALIZADO \<and>
   state (processes (snd (block_process 1 killed_session)) ! 0) = FINALIZADO \<and>
   state (processes (snd (unblock_process 1 killed_session)) ! 0) = FINALIZADO \<and>
   state (processes (session_of (run_cycle ''fifo'' 9 0 killed_session)) ! 0) = FINALIZADO \<and>
   state (processes (snd (snd (run_simulation ''fifo'' real killed_session))) ! 0) = FINALIZADO"
proof -
  have r: "reachable killed_session"
    unfolding killed_session_def by (intro reachable.intros)
  have l: "0 < length (processes killed_session)"
    by (simp add: killed_session_eq)
  have f: "state (processes killed_session ! 0) = FINALIZADO"
    by (simp add: killed_session_eq)
  from finished_is_terminal [OF r l, of 1 "''fifo''" 9 0 real] r l f show ?thesis
    by simp
qed

section \<open>Round-Robin selection\<close>

lemma select_rr_dropWhile:
  "select_next_process_rr ps q =
     (case dropWhile (\<lambda>i. \<not> is_ready ps i) q of
        [] \<Rightarrow> (None, [])
      | i # rest \<Rightarrow> (Some i, rest))"
  by (induction q) (auto simp: is_ready_def)

lemma select_rr_None: "select_next_process_rr ps q = (None, q') \<Longrightarrow> q' = []"
  by (induction q) (auto split: if_splits)

text \<open>
  C7. Round-Robin selection pops the entries in front of the first Ready one and drops
  them: it returns the first Ready entry together with the entries behind it, or none
  and an empty queue when no entry is Ready. The process it returns is Ready. After the
  cycle the queue of the engine is the entries behind the selected one followed by the
  selected one, so the popped entries that were not Ready are gone and only the selected
  process was put back, at the tail. With an empty ready set the queue is not touched.
\<close>

theorem rr_discards_not_ready:
  "select_next_process_rr ps q =
     (case dropWhile (\<lambda>i. \<not> is_ready ps i) q of
        [] \<Rightarrow> (None, [])
      | i # rest \<Rightarrow> (Some i, rest)) \<and>
   (fst (select_next_process_rr ps q) = Some j \<longrightarrow> is_ready ps j) \<and>
   (get_ready_processes (processes s) \<noteq> [] \<longrightarrow>
      rr_queue (session_of (run_cycle ''rr'' now c s)) =
        (case dropWhile (\<lambda>i. \<not> is_ready (processes s) i) (rr_queue s) of
           [] \<Rightarrow> []
         | i # rest \<Rightarrow> rest @ [i])) \<and>
   (get_ready_processes (processes s) = [] \<longrightarrow>
      rr_queue (session_of (run_cycle ''rr'' now c s)) = rr_queue s)"
proof (intro conjI impI)
  show "select_next_process_rr ps q =
     (case dropWhile (\<lambda>i. \<not> is_ready ps i) q of
        [] \<Rightarrow> (None, [])
      | i # rest \<Rightarrow> (Some i, rest))"
    by (rule select_rr_dropWhile)
next
  assume "fst (select_next_process_rr ps q) = Some j"
  then show "is_ready ps j"
    using select_rr_ready [of ps q j] by (cases "select_next_process_rr ps q") (simp add: is_ready_def)
next
  assume rdy: "get_ready_processes (processes s) \<noteq> []"
  show "rr_queue (session_of (run_cycle ''rr'' now c s)) =
        (case dropWhile (\<lambda>i. \<not> is_ready (processes s) i) (rr_queue s) of
           [] \<Rightarrow> []
         | i # rest \<Rightarrow> rest @ [i])"
  proof (cases "dropWhile (\<lambda>i. \<not> is_ready (processes s) i) (rr_queue s)")
    case Nil
    have "select_next_process_rr (processes s) (rr_queue s) = (None, [])"
      by (simp only: select_rr_dropWhile Nil list.case)
    with rdy show ?thesis
      by (simp only: Nil list.case) (simp add: run_cycle_def)
  next
    case (Cons i rest)
    have sel: "select_next_process_rr (processes s) (rr_queue s) = (Some i, rest)"
      by (simp only: select_rr_dropWhile Cons list.case)
    obtain out where "execute_unit now c (s\<lparr>rr_queue := rest @ [i]\<rparr>) (Some i) =
      Continue out (s\<lparr>rr_queue := rest @ [i],
        processes := (processes s)[i := unit_step now (processes s ! i)]\<rparr>)"
      using execute_unit_Some [of now c "s\<lparr>rr_queue := rest @ [i]\<rparr>" i] by auto
    with rdy sel show ?thesis
      by (simp only: Cons list.case) (simp add: run_cycle_def)
  qed
next
  assume "get_ready_processes (processes s) = []"
  then show "rr_queue (session_of (run_cycle ''rr'' now c s)) = rr_queue s"
    by (simp add: run_cycle_def)
qed

lemma blocked_head_session_eq:
  "blocked_head_session =
     \<lparr>processes =
        [\<lparr>pid = 1, name = ''A'', cpu_time = 2, cpu_remaining = 2, memory = 100, priority = 3,
          state = BLOQUEADO, arrival_time = 0, finish_time = None\<rparr>,
         \<lparr>pid = 2, name = ''B'', cpu_time = 2, cpu_remaining = 2, memory = 100, priority = 3,
          state = PRONTO, arrival_time = 0, finish_time = None\<rparr>],
      next_pid = 3, quantum = 2, rr_queue = [0, 1]\<rparr>"
  by (simp add: blocked_head_session_def eval_defs)

theorem rr_discards_not_ready_witness:
  "select_next_process_rr (processes blocked_head_session) (rr_queue blocked_head_session) =
     (Some 1, []) \<and>
   is_ready (processes blocked_head_session) 1 \<and>
   get_ready_processes (processes blocked_head_session) \<noteq> [] \<and>
   rr_queue (session_of (run_cycle ''rr'' 1 0 blocked_head_session)) = [1]"
proof -
  have d: "dropWhile (\<lambda>i. \<not> is_ready (processes blocked_head_session) i)
      (rr_queue blocked_head_session) = [1]"
    by (simp add: blocked_head_session_eq is_ready_def)
  have r: "get_ready_processes (processes blocked_head_session) \<noteq> []"
    by (simp add: blocked_head_session_eq eval_defs)
  from rr_discards_not_ready [of "processes blocked_head_session"
      "rr_queue blocked_head_session" 1 blocked_head_session 1 0] d r
  show ?thesis by simp
qed

section \<open>Killing a finished process\<close>

text \<open>
  C1. \<^verbatim>\<open>kill_process\<close> has no test for a process that is already Finished. On the
  session whose process was killed at time 7, a second kill at time 9 prints the same
  message as the first and replaces the completion time 7 by 9, where
  \<^verbatim>\<open>block_process\<close> prints that the process is already finished and changes nothing.
\<close>

theorem kill_finished_overwrites:
  "finish_time (processes killed_session ! 0) = Some 7 \<and>
   state (processes killed_session ! 0) = FINALIZADO \<and>
   kill_process 1 9 killed_session =
     ([Killed 1],
      killed_session\<lparr>processes := [(processes killed_session ! 0)\<lparr>finish_time := Some 9\<rparr>]\<rparr>) \<and>
   block_process 1 killed_session = ([Already_finalized 1], killed_session)"
  by (simp add: killed_session_eq eval_defs)

section \<open>Turnaround and waiting time\<close>

text \<open>
  C4. The waiting time tests the turnaround for truth, and a turnaround of zero is false:
  the process that was created and killed at the reading 5 is Finished with completion
  time 5 and turnaround 0, and its waiting time is absent.
\<close>

theorem waiting_absent_though_finished:
  "state (processes instant_session ! 0) = FINALIZADO \<and>
   finish_time (processes instant_session ! 0) = Some 5 \<and>
   turnaround_time (processes instant_session ! 0) = Some 0 \<and>
   waiting_time (processes instant_session ! 0) = Inr None"
  by (simp add: instant_session_def eval_defs turnaround_time_def waiting_time_def)

section \<open>A selection of none with a process Ready\<close>

lemma stranded_session_eq:
  "stranded_session =
     \<lparr>processes =
        [\<lparr>pid = 1, name = ''A'', cpu_time = 1, cpu_remaining = 1, memory = 100, priority = 3,
          state = PRONTO, arrival_time = 0, finish_time = None\<rparr>,
         \<lparr>pid = 2, name = ''B'', cpu_time = 1, cpu_remaining = 0, memory = 100, priority = 3,
          state = FINALIZADO, arrival_time = 0, finish_time = Some 1\<rparr>],
      next_pid = 3, quantum = 2, rr_queue = [1]\<rparr>"
  by (simp add: stranded_session_def eval_defs metric_defs upper_rr lower_rr)

text \<open>
  C2, as stated, fails: on this session the ready set is not empty, the Round-Robin
  selection returns none, and the run ends like any other run, with the closing message
  for 0 cycles and the metrics. Nothing is raised and no error is printed.
\<close>

theorem selection_none_counterexample:
  "get_ready_processes (processes stranded_session) = [0] \<and>
   select_next_process_rr (processes stranded_session) (rr_queue stranded_session) = (None, []) \<and>
   run_simulation ''rr'' real stranded_session =
     (([Header ''RR'', Concluded 0, Metrics_header, Metric_short 1 ''A'' PRONTO,
        Metric_full 2 ''B'' FINALIZADO 1 0], None),
      0, stranded_session\<lparr>rr_queue := []\<rparr>)"
  by (simp add: stranded_session_eq eval_defs metric_defs upper_rr lower_rr)

text \<open>
  C2, amended. With a ready set that is not empty, the FIFO, SJF and priority selections
  never return none. When the Round-Robin selection returns none, the pass through the
  loop body leaves the loop by \<^verbatim>\<open>break\<close> without a message, no cycle is executed and the
  session is unchanged but for the emptied queue. The run then goes on as after every
  \<^verbatim>\<open>break\<close>: it prints the closing message for the cycles counted and calls
  \<^verbatim>\<open>show_metrics\<close>, whose rows and whose exception, if it raises one, are those of the run.
  The selection of none raises nothing and prints nothing of its own.
\<close>

theorem selection_none_ends_run:
  assumes "get_ready_processes (processes s) \<noteq> []"
  shows "select_next_process_fifo (processes s) \<noteq> None \<and>
         select_next_process_sjf (processes s) \<noteq> None \<and>
         select_next_process_prio (processes s) \<noteq> None \<and>
         (fst (select_next_process_rr (processes s) (rr_queue s)) = None \<longrightarrow>
            run_cycle ''rr'' now c s = Break [] (s\<lparr>rr_queue := []\<rparr>) \<and>
            run_loop ''rr'' clock c s = ([], Broke, c, s\<lparr>rr_queue := []\<rparr>) \<and>
            run_simulation ''rr'' clock s =
              ((Header ''RR'' # Concluded 0 # fst (show_metrics (processes s)),
                snd (show_metrics (processes s))),
               0, s\<lparr>rr_queue := []\<rparr>))"
proof (intro conjI impI)
  from assms show "select_next_process_fifo (processes s) \<noteq> None"
    by (simp add: select_next_process_fifo_def split: list.splits)
  from assms show "select_next_process_sjf (processes s) \<noteq> None"
    by (simp add: select_next_process_sjf_def split: list.splits)
  from assms show "select_next_process_prio (processes s) \<noteq> None"
    by (simp add: select_next_process_prio_def split: list.splits)
next
  assume "fst (select_next_process_rr (processes s) (rr_queue s)) = None"
  then have sel: "select_next_process_rr (processes s) (rr_queue s) = (None, [])"
    using select_rr_None [of "processes s" "rr_queue s"]
    by (cases "select_next_process_rr (processes s) (rr_queue s)") simp
  with assms show cyc: "run_cycle ''rr'' now c s = Break [] (s\<lparr>rr_queue := []\<rparr>)" for now c
    by (simp add: run_cycle_def)
  then show lp: "run_loop ''rr'' clock c s = ([], Broke, c, s\<lparr>rr_queue := []\<rparr>)" for c
    by (simp add: run_loop.simps [of "''rr''" clock c s])
  then have "run_loop (lower ''rr'') clock 0 s = ([], Broke, 0, s\<lparr>rr_queue := []\<rparr>)"
    by (simp add: lower_rr)
  from run_simulation_Broke [OF this]
  show "run_simulation ''rr'' clock s =
      ((Header ''RR'' # Concluded 0 # fst (show_metrics (processes s)),
        snd (show_metrics (processes s))),
       0, s\<lparr>rr_queue := []\<rparr>)"
    by (simp add: lower_rr upper_rr)
qed

theorem selection_none_ends_run_witness:
  "get_ready_processes (processes stranded_session) \<noteq> [] \<and>
   fst (select_next_process_rr (processes stranded_session) (rr_queue stranded_session)) = None \<and>
   select_next_process_fifo (processes stranded_session) \<noteq> None \<and>
   run_cycle ''rr'' 1 0 stranded_session = Break [] (stranded_session\<lparr>rr_queue := []\<rparr>) \<and>
   run_loop ''rr'' real 0 stranded_session = ([], Broke, 0, stranded_session\<lparr>rr_queue := []\<rparr>) \<and>
   run_simulation ''rr'' real stranded_session =
     ((Header ''RR'' # Concluded 0 # fst (show_metrics (processes stranded_session)),
       snd (show_metrics (processes stranded_session))),
      0, stranded_session\<lparr>rr_queue := []\<rparr>)"
proof -
  have r: "get_ready_processes (processes stranded_session) \<noteq> []"
    by (simp add: stranded_session_eq eval_defs)
  have n: "fst (select_next_process_rr (processes stranded_session) (rr_queue stranded_session)) = None"
    by (simp add: stranded_session_eq)
  from selection_none_ends_run [OF r, of 1 0 real] r n show ?thesis
    by simp
qed

text \<open>
  On the session with the large demand the selection of none ends the loop in the same
  way, and the metrics raise after the rows of the first two processes.
\<close>

lemma stranded_big_session_eq:
  "stranded_big_session =
     \<lparr>processes =
        [\<lparr>pid = 1, name = ''A'', cpu_time = 1, cpu_remaining = 1, memory = 100, priority = 3,
          state = PRONTO, arrival_time = 0, finish_time = None\<rparr>,
         \<lparr>pid = 2, name = ''B'', cpu_time = 1, cpu_remaining = 0, memory = 100, priority = 3,
          state = FINALIZADO, arrival_time = 0, finish_time = Some 1\<rparr>,
         \<lparr>pid = 3, name = ''H'', cpu_time = 2 ^ 1024, cpu_remaining = 0, memory = 100,
          priority = 3, state = FINALIZADO, arrival_time = 0, finish_time = Some 4\<rparr>],
      next_pid = 4, quantum = 2, rr_queue = [2, 1]\<rparr>"
  by (simp add: stranded_big_session_def eval_defs metric_defs upper_rr lower_rr)

lemma stranded_big_run:
  "get_ready_processes (processes stranded_big_session) = [0] \<and>
   select_next_process_rr (processes stranded_big_session) (rr_queue stranded_big_session) =
     (None, []) \<and>
   run_simulation ''rr'' real stranded_big_session =
     (([Header ''RR'', Concluded 0, Metrics_header, Metric_short 1 ''A'' PRONTO,
        Metric_full 2 ''B'' FINALIZADO 1 0], Some OverflowError),
      0, stranded_big_session\<lparr>rr_queue := []\<rparr>)"
  by (simp add: stranded_big_session_eq eval_defs metric_defs upper_rr lower_rr)

section \<open>An unknown policy name\<close>

lemma lone_session_eq:
  "lone_session =
     \<lparr>processes =
        [\<lparr>pid = 1, name = ''P'', cpu_time = 1, cpu_remaining = 1, memory = 100, priority = 3,
          state = PRONTO, arrival_time = 0, finish_time = None\<rparr>],
      next_pid = 2, quantum = 2, rr_queue = [0]\<rparr>"
  by (simp add: lone_session_def eval_defs)

lemma lower_xyz: "lower ''xyz'' = ''xyz''"
  by code_simp

lemma upper_xyz: "upper ''xyz'' = ''XYZ''"
  by code_simp

text \<open>
  C3, as stated, fails. On the empty session the run with the name \<^verbatim>\<open>xyz\<close> prints no
  error: it ends with the notice that all processes are finished and the closing
  message. And \<^verbatim>\<open>FIFO\<close>, which is not one of the four names, is lowered first and runs a
  cycle.
\<close>

theorem unknown_policy_counterexample:
  "''xyz'' \<notin> {''fifo'', ''sjf'', ''prio'', ''rr''} \<and>
   run_simulation ''xyz'' real (init 2) =
     (([Header ''XYZ'', All_finalized, Concluded 0, Metrics_header], None), 0, init 2) \<and>
   ''FIFO'' \<notin> {''fifo'', ''sjf'', ''prio'', ''rr''} \<and>
   fst (snd (run_simulation ''FIFO'' real lone_session)) = 1"
  by (simp add: lone_session_eq eval_defs metric_defs lower_xyz upper_xyz lower_FIFO upper_fifo)

text \<open>
  C3, amended. For a name whose lowercase form is none of the four, a run counts no
  cycle and leaves the session as it was, whatever the session. When a process is Ready,
  the run fails before any cycle: it prints the header and the message that the
  algorithm is invalid and returns, without the closing message and the metrics and
  without an exception; for a name of ASCII characters the two texts are the uppercase
  and the lowercase form of the name. What a run prints when no process is Ready is
  not part of the statement.
\<close>

theorem unknown_policy_runs_nothing:
  assumes "lower algorithm \<notin> {''fifo'', ''sjf'', ''prio'', ''rr''}"
  shows "fst (snd (run_simulation algorithm clock s)) = 0 \<and>
         snd (snd (run_simulation algorithm clock s)) = s \<and>
         (get_ready_processes (processes s) \<noteq> [] \<longrightarrow>
            (\<exists>h a. fst (run_simulation algorithm clock s) =
               ([Header h, Invalid_algorithm a], None)) \<and>
            (ascii algorithm \<longrightarrow>
               fst (run_simulation algorithm clock s) =
                 ([Header (upper (lower algorithm)), Invalid_algorithm (lower algorithm)],
                  None)))"
proof (cases "get_ready_processes (processes s) = []")
  case True
  with assms have "run_cycle (lower algorithm) (clock 1) 0 s =
      Break [if filter (\<lambda>p. state p \<noteq> FINALIZADO) (processes s) = []
             then All_finalized else No_ready] s"
    by (simp add: run_cycle_def)
  then have "run_loop (lower algorithm) clock 0 s =
      ([if filter (\<lambda>p. state p \<noteq> FINALIZADO) (processes s) = []
        then All_finalized else No_ready], Broke, 0, s)"
    by (simp add: run_loop.simps [of "lower algorithm" clock 0 s])
  from run_simulation_Broke [OF this] True show ?thesis
    by simp
next
  case False
  with assms have "run_cycle (lower algorithm) (clock 1) 0 s =
      Return [Invalid_algorithm (lower algorithm)] s"
    by (simp add: run_cycle_def)
  then have "run_loop (lower algorithm) clock 0 s =
      ([Invalid_algorithm (lower algorithm)], Returned, 0, s)"
    by (simp add: run_loop.simps [of "lower algorithm" clock 0 s])
  from run_simulation_Returned [OF this] show ?thesis
    by simp
qed

theorem unknown_policy_runs_nothing_witness:
  "lower ''xyz'' \<notin> {''fifo'', ''sjf'', ''prio'', ''rr''} \<and>
   get_ready_processes (processes lone_session) \<noteq> [] \<and>
   ascii ''xyz'' \<and>
   run_simulation ''xyz'' real lone_session =
     (([Header ''XYZ'', Invalid_algorithm ''xyz''], None), 0, lone_session)"
proof -
  have h: "lower ''xyz'' \<notin> {''fifo'', ''sjf'', ''prio'', ''rr''}"
    by (simp add: lower_xyz)
  have r: "get_ready_processes (processes lone_session) \<noteq> []"
    by (simp add: lone_session_eq eval_defs)
  have a: "ascii ''xyz''"
    by (simp add: ascii_def)
  from unknown_policy_runs_nothing [OF h, of real lone_session] h r a show ?thesis
    by (simp add: lower_xyz upper_xyz prod_eq_iff)
qed

end
